theory Spec2Isabelle
  imports Main "HOL-Library.Word" "HOL-Library.Multiset"
begin

section \<open>JavaScript values used by the program\<close>

subsection \<open>Strings\<close>

text \<open>
  A JavaScript string is a sequence of 16-bit code units. \<open>ascii\<close> writes a string
  literal of the source whose characters are all ASCII.
\<close>

type_synonym code_unit = "16 word"
type_synonym jsstring = "code_unit list"

definition ascii :: "string \<Rightarrow> jsstring" where
  "ascii s = map of_char s"

definition TAB :: code_unit where "TAB = 9"
definition LF :: code_unit where "LF = 10"
definition CR :: code_unit where "CR = 13"
definition SPACE :: code_unit where "SPACE = 32"

text \<open>
  \<open>Array.prototype.join\<close> on an array of strings, and \<open>String.prototype.split\<close> with a
  separator of one code unit (\<open>''''.split(sep)\<close> is the one-element array holding the
  empty string).
\<close>

fun join :: "jsstring \<Rightarrow> jsstring list \<Rightarrow> jsstring" where
  "join sep [] = []"
| "join sep [x] = x"
| "join sep (x # y # ys) = x @ sep @ join sep (y # ys)"

function split :: "code_unit \<Rightarrow> jsstring \<Rightarrow> jsstring list" where
  "split sep str =
     (case dropWhile (\<lambda>c. c \<noteq> sep) str of
        [] \<Rightarrow> [str]
      | _ # rest \<Rightarrow> takeWhile (\<lambda>c. c \<noteq> sep) str # split sep rest)"
  by pat_completeness auto
termination
proof (relation "measure (\<lambda>(sep, str). length str)")
  fix sep :: code_unit and str x21 x22
  assume "dropWhile (\<lambda>c. c \<noteq> sep) str = x21 # x22"
  then have "length (x21 # x22) \<le> length str"
    by (metis length_dropWhile_le)
  then show "((sep, x22), (sep, str)) \<in> measure (\<lambda>(sep, str). length str)"
    by simp
qed simp

declare split.simps [simp del]

text \<open>
  \<open>String.prototype.trim\<close> removes the code units of the ECMAScript productions
  WhiteSpace and LineTerminator from both ends; all of them lie in the Basic
  Multilingual Plane, so each is one code unit.
\<close>

definition isWhiteSpace :: "code_unit \<Rightarrow> bool" where
  "isWhiteSpace c \<longleftrightarrow>
     c = 0x9 \<or> c = 0xA \<or> c = 0xB \<or> c = 0xC \<or> c = 0xD \<or> c = 0x20 \<or> c = 0xA0 \<or>
     c = 0x1680 \<or> c = 0x2000 \<or> c = 0x2001 \<or> c = 0x2002 \<or> c = 0x2003 \<or> c = 0x2004 \<or>
     c = 0x2005 \<or> c = 0x2006 \<or> c = 0x2007 \<or> c = 0x2008 \<or> c = 0x2009 \<or> c = 0x200A \<or>
     c = 0x2028 \<or> c = 0x2029 \<or> c = 0x202F \<or> c = 0x205F \<or> c = 0x3000 \<or> c = 0xFEFF"

definition trim :: "jsstring \<Rightarrow> jsstring" where
  "trim str = rev (dropWhile isWhiteSpace (rev (dropWhile isWhiteSpace str)))"

subsection \<open>Numbers\<close>

text \<open>
  \<open>Number.prototype.toString\<close> is defined by ECMAScript on the decimal decomposition
  of a number: for a finite non-zero \<open>x\<close> the integers \<open>n\<close>, \<open>k\<close>, \<open>s\<close> with
  \<open>10^(k-1) \<le> s < 10^k\<close>, \<open>s * 10^(n-k) = |x|\<close> and \<open>k\<close> as small as possible. A number
  is modelled by that decomposition: \<open>Finite neg s n\<close> is the number of sign \<open>neg\<close>,
  decimal digits \<open>s\<close> and decimal exponent \<open>n\<close>; \<open>s = 0\<close> is the zero of that sign.
  So \<open>2500\<close> is \<open>Finite False 25 4\<close> and \<open>-4.5\<close> is \<open>Finite True 45 1\<close>.
\<close>

datatype number = NaN | Infinity bool | Finite bool nat int

fun isNegative :: "number \<Rightarrow> bool" where
  "isNegative NaN = False"
| "isNegative (Infinity neg) = neg"
| "isNegative (Finite neg s n) = (neg \<and> s \<noteq> 0)"

definition digit :: "nat \<Rightarrow> code_unit" where
  "digit d = ascii ''0123456789'' ! d"

fun digits :: "nat \<Rightarrow> jsstring" where
  "digits s = (if s < 10 then [digit s] else digits (s div 10) @ [digit (s mod 10)])"

declare digits.simps [simp del]

fun Number_toString :: "number \<Rightarrow> jsstring" where
  "Number_toString NaN = ascii ''NaN''"
| "Number_toString (Infinity neg) = (if neg then ascii ''-Infinity'' else ascii ''Infinity'')"
| "Number_toString (Finite neg s n) =
     (if s = 0 then ascii ''0''
      else (if neg then ascii ''-'' else []) @
        (let ds = digits s; k = int (length ds) in
         if k \<le> n \<and> n \<le> 21 then ds @ replicate (nat (n - k)) (digit 0)
         else if 0 < n \<and> n \<le> 21 then take (nat n) ds @ ascii ''.'' @ drop (nat n) ds
         else if - 6 < n \<and> n \<le> 0 then ascii ''0.'' @ replicate (nat (- n)) (digit 0) @ ds
         else
           (let e = n - 1;
                es = (if e < 0 then ascii ''-'' else ascii ''+'') @ digits (nat \<bar>e\<bar>) in
            if k = 1 then ds @ ascii ''e'' @ es
            else take 1 ds @ ascii ''.'' @ drop 1 ds @ ascii ''e'' @ es)))"

section \<open>types.ts\<close>

record Transaction =
  date :: jsstring
  description :: jsstring
  category :: jsstring
  amount :: number

datatype FileStatus = IDLE | PROCESSING | SUCCESS | ERROR

section \<open>utils/csv.ts\<close>

text \<open>
  \<open>str.replace(/[\t\n\r]+/g, ' ')\<close>: scanning from the left, every maximal run of tab,
  line feed and carriage return is replaced by one space.
\<close>

definition isTabNlCr :: "code_unit \<Rightarrow> bool" where
  "isTabNlCr c \<longleftrightarrow> c = TAB \<or> c = LF \<or> c = CR"

function replace_runs :: "jsstring \<Rightarrow> jsstring" where
  "replace_runs [] = []"
| "replace_runs (c # cs) =
     (if isTabNlCr c then SPACE # replace_runs (dropWhile isTabNlCr cs)
      else c # replace_runs cs)"
  by pat_completeness auto
termination
  by (relation "measure length") (auto simp: le_imp_less_Suc length_dropWhile_le)

definition clean :: "jsstring \<Rightarrow> jsstring" where
  "clean str = trim (replace_runs str)"

definition headers :: "jsstring list" where
  "headers = [ascii ''Date'', ascii ''Description'', ascii ''Category'', ascii ''Amount'']"

text \<open>The callback of \<open>transactions.map\<close>: one transaction to one row.\<close>

definition row :: "Transaction \<Rightarrow> jsstring" where
  "row t = join [TAB]
     [date t, clean (description t), clean (category t), Number_toString (amount t)]"

definition generateCSV :: "Transaction list \<Rightarrow> jsstring" where
  "generateCSV transactions =
     (if length transactions = 0 then []
      else join [LF] (join [TAB] headers # map row transactions))"

section \<open>components/FileUpload.tsx\<close>

text \<open>
  A browser \<open>File\<close>: the fields the program reads (\<open>name\<close>, \<open>size\<close>, \<open>type\<close>) and
  \<open>lastModified\<close>, by which two files of one name and size can still differ.
\<close>

record File =
  name :: jsstring
  size' :: nat
  type' :: jsstring
  lastModified :: nat

definition validTypes :: "jsstring list" where
  "validTypes = [ascii ''image/jpeg'', ascii ''image/png'', ascii ''image/webp'',
     ascii ''image/heic'', ascii ''application/pdf'']"

text \<open>\<open>selectedFiles.some(f => f.name === file.name && f.size === file.size)\<close>\<close>

definition isDuplicate :: "File list \<Rightarrow> File \<Rightarrow> bool" where
  "isDuplicate selectedFiles file =
     list_ex (\<lambda>f. name f = name file \<and> size' f = size' file) selectedFiles"

text \<open>
  \<open>handleFiles\<close> takes the component's \<open>disabled\<close> property, the \<open>selectedFiles\<close> of the
  render it runs in and the dropped or chosen \<open>fileList\<close>, and returns the next
  \<open>selectedFiles\<close>. The \<open>forEach\<close> loop pushing onto \<open>newFiles\<close> is the fold.
\<close>

definition handleFiles :: "bool \<Rightarrow> File list \<Rightarrow> File list \<Rightarrow> File list" where
  "handleFiles disabled selectedFiles fileList =
     (if disabled then selectedFiles
      else
        let newFiles =
              foldl (\<lambda>newFiles file.
                       if type' file \<in> set validTypes then
                         (if \<not> isDuplicate selectedFiles file then newFiles @ [file]
                          else newFiles)
                       else newFiles)
                [] fileList
        in if length newFiles > 0 then selectedFiles @ newFiles else selectedFiles)"

text \<open>A sequence of add-events, each handled in the render the previous one produced.\<close>

definition addEvents :: "File list \<Rightarrow> File list list \<Rightarrow> File list" where
  "addEvents selectedFiles batches = foldl (handleFiles False) selectedFiles batches"

text \<open>The deduplication key of a file, and a submission set without repeated keys.\<close>

definition dedupKey :: "File \<Rightarrow> jsstring \<times> nat" where
  "dedupKey f = (name f, size' f)"

definition distinctKeys :: "File list \<Rightarrow> bool" where
  "distinctKeys fs = distinct (map dedupKey fs)"

section \<open>services/geminiService.ts\<close>

text \<open>
  The value \<open>JSON.parse\<close> returns. An object lists its own properties, each key once.
\<close>

datatype json =
    JNull
  | JBool bool
  | JNumber number
  | JString jsstring
  | JArray "json list"
  | JObject "(jsstring \<times> json) list"

text \<open>
  What a \<open>throw\<close> or a rejected promise carries: the \<open>Error\<close> objects of the program
  and the runtime, and the \<open>ProgressEvent\<close> that \<open>FileReader.onerror\<close> receives, which has
  no \<open>message\<close> property.
\<close>

datatype exn = Error jsstring | SyntaxError jsstring | TypeError jsstring | ProgressEvent

fun message :: "exn \<Rightarrow> jsstring option" where
  "message (Error m) = Some m"
| "message (SyntaxError m) = Some m"
| "message (TypeError m) = Some m"
| "message ProgressEvent = None"

text \<open>JavaScript truthiness of a parsed value, as \<open>||\<close> tests it.\<close>

fun isTruthy :: "json \<Rightarrow> bool" where
  "isTruthy JNull = False"
| "isTruthy (JBool b) = b"
| "isTruthy (JNumber NaN) = False"
| "isTruthy (JNumber (Infinity neg)) = True"
| "isTruthy (JNumber (Finite neg s n)) = (s \<noteq> 0)"
| "isTruthy (JString str) = (str \<noteq> [])"
| "isTruthy (JArray xs) = True"
| "isTruthy (JObject kvs) = True"

text \<open>
  \<open>data.transactions\<close>: reading the property of \<open>null\<close> throws a \<open>TypeError\<close>; an object
  yields the member or \<open>undefined\<close> (\<open>None\<close>); arrays, strings, numbers and booleans have
  no such property.
\<close>

fun data_transactions :: "json \<Rightarrow> exn + json option" where
  "data_transactions JNull =
     Inl (TypeError (ascii ''Cannot read properties of null (reading 'transactions')''))"
| "data_transactions (JObject kvs) = Inr (map_of kvs (ascii ''transactions''))"
| "data_transactions (JBool b) = Inr None"
| "data_transactions (JNumber x) = Inr None"
| "data_transactions (JString str) = Inr None"
| "data_transactions (JArray xs) = Inr None"

text \<open>
  \<open>extractTransactions\<close>. The two calls into libraries are parameters:
  \<open>generateContent\<close> is \<open>ai.models.generateContent\<close> followed by reading \<open>response.text\<close>
  (rejected, or the text, \<open>None\<close> when it is \<open>undefined\<close>), and \<open>JSON_parse\<close> is
  \<open>JSON.parse\<close> (a \<open>SyntaxError\<close>, or the parsed value). The \<open>catch\<close> block logs and
  rethrows, so every error leaves unchanged. The result is the value the function
  returns, which no code inspects: it has the type \<open>json\<close>, not \<open>Transaction list\<close>.
  The payload is \<open>None\<close> when the caller passes \<open>undefined\<close>.
\<close>

definition extractTransactions ::
  "(jsstring option \<Rightarrow> jsstring \<Rightarrow> exn + jsstring option) \<Rightarrow> (jsstring \<Rightarrow> exn + json) \<Rightarrow>
   jsstring option \<Rightarrow> jsstring \<Rightarrow> exn + json" where
  "extractTransactions generateContent JSON_parse base64Data mimeType =
     (case generateContent base64Data mimeType of
        Inl e \<Rightarrow> Inl e
      | Inr None \<Rightarrow> Inl (Error (ascii ''No response received from Gemini.''))
      | Inr (Some responseText) \<Rightarrow>
          if responseText = [] then Inl (Error (ascii ''No response received from Gemini.''))
          else
            (case JSON_parse responseText of
               Inl e \<Rightarrow> Inl e
             | Inr data \<Rightarrow>
                 (case data_transactions data of
                    Inl e \<Rightarrow> Inl e
                  | Inr None \<Rightarrow> Inr (JArray [])
                  | Inr (Some v) \<Rightarrow> Inr (if isTruthy v then v else JArray []))))"

text \<open>
  \<open>transactionSchema\<close>, the response schema the request carries: an object whose
  required member \<open>transactions\<close> is an array of objects with the required members
  \<open>date\<close>, \<open>description\<close>, \<open>category\<close> (strings) and \<open>amount\<close> (a number).
\<close>

fun isJString :: "json option \<Rightarrow> bool" where
  "isJString (Some (JString str)) = True"
| "isJString _ = False"

fun isJNumber :: "json option \<Rightarrow> bool" where
  "isJNumber (Some (JNumber x)) = True"
| "isJNumber _ = False"

fun conformsItem :: "json \<Rightarrow> bool" where
  "conformsItem (JObject kvs) =
     (isJString (map_of kvs (ascii ''date'')) \<and> isJString (map_of kvs (ascii ''description'')) \<and>
      isJString (map_of kvs (ascii ''category'')) \<and> isJNumber (map_of kvs (ascii ''amount'')))"
| "conformsItem _ = False"

fun conformsSchema :: "json \<Rightarrow> bool" where
  "conformsSchema (JObject kvs) =
     (case map_of kvs (ascii ''transactions'') of
        Some (JArray items) \<Rightarrow> list_all conformsItem items
      | _ \<Rightarrow> False)"
| "conformsSchema _ = False"

text \<open>A returned item with all four fields present and not \<open>null\<close>.\<close>

fun present :: "json option \<Rightarrow> bool" where
  "present None = False"
| "present (Some JNull) = False"
| "present (Some v) = True"

fun hasAllFields :: "json \<Rightarrow> bool" where
  "hasAllFields (JObject kvs) =
     (present (map_of kvs (ascii ''date'')) \<and> present (map_of kvs (ascii ''description'')) \<and>
      present (map_of kvs (ascii ''category'')) \<and> present (map_of kvs (ascii ''amount'')))"
| "hasAllFields _ = False"

section \<open>App.tsx\<close>

record App_state =
  files :: "File list"
  status :: FileStatus
  transactions :: "Transaction list"
  error :: "jsstring option"
  copied :: bool
  processedCount :: nat

text \<open>
  What \<open>handleAnalyze\<close> calls outside the program: \<open>readAsDataURL\<close> is the
  \<open>FileReader\<close> (the error event, or the Data URL in \<open>reader.result\<close>); \<open>extractTransactions'\<close> is
  \<open>extractTransactions\<close> at the type its signature declares,
  \<open>Promise<Transaction[]>\<close> (rejected, or the records); \<open>Date_getTime s\<close> is
  \<open>new Date(s).getTime()\<close>, \<open>None\<close> when the string does not parse and the time value
  is \<open>NaN\<close>; \<open>settled\<close> lists the indices of the files in the order their promises settle.
\<close>

record world =
  readAsDataURL :: "File \<Rightarrow> exn + jsstring"
  extractTransactions' :: "jsstring option \<Rightarrow> jsstring \<Rightarrow> exn + Transaction list"
  Date_getTime :: "jsstring \<Rightarrow> int option"
  settled :: "nat list"

text \<open>Reading an array at an index: \<open>undefined\<close> (\<open>None\<close>) out of range.\<close>

definition at_index :: "'a list \<Rightarrow> nat \<Rightarrow> 'a option" where
  "at_index xs i = (if i < length xs then Some (xs ! i) else None)"

definition COMMA :: code_unit where "COMMA = 44"

text \<open>\<open>convertFileToBase64\<close>: the part of the Data URL after its first comma.\<close>

definition convertFileToBase64 :: "world \<Rightarrow> File \<Rightarrow> exn + jsstring option" where
  "convertFileToBase64 w file =
     (case readAsDataURL w file of
        Inl ev \<Rightarrow> Inl ev
      | Inr result \<Rightarrow> Inr (at_index (split COMMA result) 1))"

text \<open>The asynchronous callback of \<open>files.map\<close>, run to its end for one file.\<close>

definition processFile :: "world \<Rightarrow> File \<Rightarrow> exn + Transaction list" where
  "processFile w file =
     (case convertFileToBase64 w file of
        Inl ev \<Rightarrow> Inl ev
      | Inr base64Data \<Rightarrow> extractTransactions' w base64Data (type' file))"

text \<open>
  \<open>Promise.all\<close> over settled promises: rejected with the reason of the promise that
  rejects first in time, otherwise fulfilled with the values in the order of the array.
\<close>

definition rejections :: "(exn + 'a) list \<Rightarrow> exn list" where
  "rejections ps = List.map_filter (\<lambda>p. case p of Inl e \<Rightarrow> Some e | Inr v \<Rightarrow> None) ps"

definition fulfilled :: "(exn + 'a) list \<Rightarrow> 'a list" where
  "fulfilled ps = List.map_filter (\<lambda>p. case p of Inl e \<Rightarrow> None | Inr v \<Rightarrow> Some v) ps"

definition Promise_all :: "nat list \<Rightarrow> (exn + 'a) list \<Rightarrow> exn + 'a list" where
  "Promise_all order ps =
     (case rejections (map (\<lambda>i. ps ! i) (filter (\<lambda>i. i < length ps) order)) @ rejections ps of
        e # es \<Rightarrow> Inl e
      | [] \<Rightarrow> Inr (fulfilled ps))"

text \<open>
  The comparator of the sort, \<open>new Date(a.date).getTime() - new Date(b.date).getTime()\<close>:
  \<open>NaN\<close> (\<open>None\<close>) when either date does not parse. Time values are integers, and the
  sign of their floating-point difference is the sign of their difference.
\<close>

definition compareFn :: "(jsstring \<Rightarrow> int option) \<Rightarrow> Transaction \<Rightarrow> Transaction \<Rightarrow> int option" where
  "compareFn getTime a b =
     (case (getTime (date a), getTime (date b)) of
        (Some x, Some y) \<Rightarrow> Some (x - y)
      | _ \<Rightarrow> None)"

text \<open>
  \<open>Array.prototype.sort\<close> with a comparator. ECMAScript takes a comparator result of
  \<open>NaN\<close> as \<open>+0\<close> (\<open>sortCompare\<close>) and requires a stable sort; where the comparator is not
  a consistent ordering, as with \<open>NaN\<close> results beside ordered ones, the order is left
  to the engine. The sort is modelled as the stable insertion sort: on a consistent
  comparator every conforming engine returns what it returns.
\<close>

definition sortCompare :: "('a \<Rightarrow> 'a \<Rightarrow> int option) \<Rightarrow> 'a \<Rightarrow> 'a \<Rightarrow> int" where
  "sortCompare comparefn x y = (case comparefn x y of None \<Rightarrow> 0 | Some v \<Rightarrow> v)"

fun insert_sorted :: "('a \<Rightarrow> 'a \<Rightarrow> int option) \<Rightarrow> 'a \<Rightarrow> 'a list \<Rightarrow> 'a list" where
  "insert_sorted comparefn x [] = [x]"
| "insert_sorted comparefn x (y # ys) =
     (if sortCompare comparefn x y \<le> 0 then x # y # ys
      else y # insert_sorted comparefn x ys)"

definition Array_sort :: "('a \<Rightarrow> 'a \<Rightarrow> int option) \<Rightarrow> 'a list \<Rightarrow> 'a list" where
  "Array_sort comparefn xs = foldr (insert_sorted comparefn) xs []"

datatype call = ReadAsDataURL File | ExtractTransactions "jsstring option" jsstring

text \<open>
  The calls a run makes: one read per file, begun in the order of the files, and one
  extraction for each file that was read.
\<close>

definition calls :: "world \<Rightarrow> File list \<Rightarrow> call list" where
  "calls w fs =
     map ReadAsDataURL fs @
     List.map_filter
       (\<lambda>file. case convertFileToBase64 w file of
                  Inl ev \<Rightarrow> None
                | Inr base64Data \<Rightarrow> Some (ExtractTransactions base64Data (type' file)))
       fs"

definition defaultError :: jsstring where
  "defaultError =
     ascii ''Failed to analyze one or more documents. Please check the files and try again.''"

text \<open>
  \<open>handleAnalyze\<close> from the state it is called in to the state after every promise
  has settled, with the calls it made. Each file whose callback ends well increments
  \<open>processedCount\<close> once.
\<close>

definition handleAnalyze :: "world \<Rightarrow> App_state \<Rightarrow> App_state \<times> call list" where
  "handleAnalyze w s =
     (if length (files s) = 0 then (s, [])
      else
        let s1 = s\<lparr>status := PROCESSING, processedCount := 0, error := None, transactions := []\<rparr>;
            promises = map (processFile w) (files s);
            s2 = s1\<lparr>processedCount := length (fulfilled promises)\<rparr>
        in case Promise_all (settled w) promises of
             Inr results \<Rightarrow>
               (let allTransactions = Array_sort (compareFn (Date_getTime w)) (concat results)
                in (s2\<lparr>transactions := allTransactions, status := SUCCESS\<rparr>, calls w (files s)))
           | Inl err \<Rightarrow>
               (s2\<lparr>error := Some (case message err of
                                    None \<Rightarrow> defaultError
                                  | Some m \<Rightarrow> if m = [] then defaultError else m),
                    status := ERROR\<rparr>,
                calls w (files s)))"

text \<open>A sequence sorted by the calendar value of its dates.\<close>

definition sortedByDate :: "(jsstring \<Rightarrow> int option) \<Rightarrow> Transaction list \<Rightarrow> bool" where
  "sortedByDate getTime ts =
     sorted_wrt (\<lambda>a b. case (getTime (date a), getTime (date b)) of
                          (Some x, Some y) \<Rightarrow> x \<le> y
                        | _ \<Rightarrow> True) ts"

section \<open>Concrete inputs\<close>

text \<open>The two records of the two-file scenario, and two records with unusual dates.\<close>

definition txCoffee :: Transaction where
  "txCoffee = \<lparr>date = ascii ''2024-03-05'', description = ascii ''Coffee Shop'',
     category = ascii ''Dining'', amount = Finite True 45 1\<rparr>"

definition txSalary :: Transaction where
  "txSalary = \<lparr>date = ascii ''2024-01-10'', description = ascii ''Employer Inc'',
     category = ascii ''Salary'', amount = Finite False 25 4\<rparr>"

definition txPending :: Transaction where
  "txPending = \<lparr>date = ascii ''pending'', description = ascii ''Card hold'',
     category = ascii ''Other'', amount = Finite True 12 2\<rparr>"

definition txRent :: Transaction where
  "txRent = \<lparr>date = ascii ''2024-02-01'' @ [LF],
     description = ascii ''Rent'' @ [TAB] @ ascii ''Payment'' @ [LF],
     category = ascii ''Bills'', amount = Finite True 12 4\<rparr>"

definition fileJanuary :: File where
  "fileJanuary = \<lparr>name = ascii ''january.pdf'', size' = 1024,
     type' = ascii ''application/pdf'', lastModified = 1\<rparr>"

definition fileMarch :: File where
  "fileMarch = \<lparr>name = ascii ''march.png'', size' = 2048,
     type' = ascii ''image/png'', lastModified = 2\<rparr>"

text \<open>Another file of the name and size of \<open>fileJanuary\<close>.\<close>

definition fileJanuaryOther :: File where
  "fileJanuaryOther = \<lparr>name = ascii ''january.pdf'', size' = 1024,
     type' = ascii ''application/pdf'', lastModified = 3\<rparr>"

text \<open>
  Time values of the dates above: midnight UTC of 2024-01-10 and of 2024-03-05 in
  milliseconds since the epoch; \<open>pending\<close> is no date.
\<close>

definition timeOf :: "jsstring \<Rightarrow> int option" where
  "timeOf s =
     (if s = ascii ''2024-01-10'' then Some 1704844800000
      else if s = ascii ''2024-03-05'' then Some 1709596800000
      else None)"

definition readOk :: "File \<Rightarrow> exn + jsstring" where
  "readOk file = Inr (ascii ''data:'' @ type' file @ ascii '';base64,JVBERi0='')"

text \<open>
  Three worlds: every extraction succeeds (the two-file scenario); the extraction
  of the image fails; the extraction of the PDF yields a record whose date does not
  parse between two that do.
\<close>

definition worldOk :: world where
  "worldOk = \<lparr>readAsDataURL = readOk,
     extractTransactions' =
       (\<lambda>base64Data mimeType.
          if mimeType = ascii ''application/pdf'' then Inr [txCoffee] else Inr [txSalary]),
     Date_getTime = timeOf, settled = [1, 0]\<rparr>"

definition worldFail :: world where
  "worldFail = \<lparr>readAsDataURL = readOk,
     extractTransactions' =
       (\<lambda>base64Data mimeType.
          if mimeType = ascii ''application/pdf'' then Inr [txCoffee]
          else Inl (Error (ascii ''No response received from Gemini.''))),
     Date_getTime = timeOf, settled = [0, 1]\<rparr>"

definition worldPending :: world where
  "worldPending = \<lparr>readAsDataURL = readOk,
     extractTransactions' = (\<lambda>base64Data mimeType. Inr [txCoffee, txPending, txSalary]),
     Date_getTime = timeOf, settled = [0]\<rparr>"

definition stateWith :: "File list \<Rightarrow> App_state" where
  "stateWith fs = \<lparr>files = fs, status = IDLE, transactions = [], error = None,
     copied = False, processedCount = 0\<rparr>"

text \<open>The state an earlier successful run left, with new files selected.\<close>

definition stateAfterRun :: "File list \<Rightarrow> App_state" where
  "stateAfterRun fs = \<lparr>files = fs, status = SUCCESS, transactions = [txSalary], error = None,
     copied = False, processedCount = 1\<rparr>"

text \<open>
  Responses of the capability: a \<open>generateContent\<close> that answers with a given text, and
  the values \<open>JSON.parse\<close> gives to three response texts.
\<close>

definition respond :: "jsstring \<Rightarrow> jsstring option \<Rightarrow> jsstring \<Rightarrow> exn + jsstring option" where
  "respond txt base64Data mimeType = Inr (Some txt)"

definition textEmptyObject :: jsstring where
  \<open>textEmptyObject = ascii ''{}''\<close>

definition textDateOnly :: jsstring where
  \<open>textDateOnly = ascii ''{"transactions":[{"date":"2024-01-10"}]}''\<close>

definition textCoffee :: jsstring where
  \<open>textCoffee = ascii ''{"transactions":[{"date":"2024-03-05","description":"Coffee Shop","category":"Dining","amount":-4.50}]}''\<close>

definition itemDateOnly :: json where
  "itemDateOnly = JObject [(ascii ''date'', JString (ascii ''2024-01-10''))]"

definition itemCoffee :: json where
  "itemCoffee = JObject [(ascii ''date'', JString (ascii ''2024-03-05'')),
     (ascii ''description'', JString (ascii ''Coffee Shop'')),
     (ascii ''category'', JString (ascii ''Dining'')),
     (ascii ''amount'', JNumber (Finite True 45 1))]"

definition parseOf :: "jsstring \<Rightarrow> exn + json" where
  "parseOf s =
     (if s = textEmptyObject then Inr (JObject [])
      else if s = textDateOnly then Inr (JObject [(ascii ''transactions'', JArray [itemDateOnly])])
      else if s = textCoffee then Inr (JObject [(ascii ''transactions'', JArray [itemCoffee])])
      else Inl (SyntaxError (ascii ''Unexpected token'')))"

section \<open>The serializer\<close>

subsection \<open>Digits and numbers\<close>

lemma digit_in: "d < 10 \<Longrightarrow> digit d \<in> set (ascii ''0123456789'')"
  unfolding digit_def by (rule nth_mem) (simp add: ascii_def)

lemma set_digits: "set (digits s) \<subseteq> set (ascii ''0123456789'')"
proof (induction s rule: digits.induct)
  case (1 s)
  show ?case
  proof (cases "s < 10")
    case True then show ?thesis using digit_in[of s] by (subst digits.simps) simp
  next
    case False
    then show ?thesis using 1 digit_in[of "s mod 10"] by (subst digits.simps) simp
  qed
qed

lemma digits_nonempty: "digits s \<noteq> []"
  by (subst digits.simps) simp

lemma hd_digits: "hd (digits s) \<in> set (ascii ''0123456789'')"
proof -
  have "hd (digits s) \<in> set (digits s)"
    by (rule hd_in_set) (rule digits_nonempty)
  then show ?thesis
    by (rule subsetD [OF set_digits])
qed

lemma set_Number_toString:
  "set (Number_toString x) \<subseteq> set (ascii ''0123456789.-+eNaInfity'')"
proof (cases x)
  case NaN then show ?thesis by (simp add: ascii_def)
next
  case (Infinity neg) then show ?thesis by (simp add: ascii_def)
next
  case (Finite neg s n)
  have ds: "set (digits m) \<subseteq> set (ascii ''0123456789.-+eNaInfity'')" for m
    using set_digits[of m] by (auto simp: ascii_def)
  have tk: "set (take j (digits m)) \<subseteq> set (ascii ''0123456789.-+eNaInfity'')" for m j
    using ds[of m] set_take_subset[of j "digits m"] by blast
  have dr: "set (drop j (digits m)) \<subseteq> set (ascii ''0123456789.-+eNaInfity'')" for m j
    using ds[of m] set_drop_subset[of j "digits m"] by blast
  have d0: "digit 0 \<in> set (ascii ''0123456789.-+eNaInfity'')"
    by (simp add: digit_def ascii_def)
  have misc: "set (ascii ''0'') \<subseteq> set (ascii ''0123456789.-+eNaInfity'')"
     "set (ascii ''-'') \<subseteq> set (ascii ''0123456789.-+eNaInfity'')"
     "set (ascii ''+'') \<subseteq> set (ascii ''0123456789.-+eNaInfity'')"
     "set (ascii ''.'') \<subseteq> set (ascii ''0123456789.-+eNaInfity'')"
     "set (ascii ''0.'') \<subseteq> set (ascii ''0123456789.-+eNaInfity'')"
     "set (ascii ''e'') \<subseteq> set (ascii ''0123456789.-+eNaInfity'')"
    by (simp_all add: ascii_def)
  show ?thesis
    unfolding Finite Number_toString.simps Let_def
    using ds tk dr d0 misc
    by (simp only: set_append set_replicate_conv_if Un_subset_iff split: if_split) simp
qed

lemma Number_toString_no_sep:
  "TAB \<notin> set (Number_toString x)" "LF \<notin> set (Number_toString x)"
proof -
  have "TAB \<notin> set (ascii ''0123456789.-+eNaInfity'')" "LF \<notin> set (ascii ''0123456789.-+eNaInfity'')"
    by (simp_all add: ascii_def TAB_def LF_def)
  then show "TAB \<notin> set (Number_toString x)" "LF \<notin> set (Number_toString x)"
    using set_Number_toString[of x] by blast+
qed

lemma hd_Number_toString_pos:
  assumes "\<not> neg" "s \<noteq> 0"
  shows "hd (Number_toString (Finite neg s n)) \<in> set (ascii ''0123456789'')"
proof -
  have a: "hd (digits s @ z) \<in> set (ascii ''0123456789'')" for z
    using hd_digits[of s] digits_nonempty[of s] by simp
  have b: "j \<noteq> 0 \<Longrightarrow> hd (take j (digits s) @ z) \<in> set (ascii ''0123456789'')" for z j
    using hd_digits[of s] digits_nonempty[of s] by (cases "digits s"; cases j) auto
  have c: "hd (ascii ''0.'' @ z) \<in> set (ascii ''0123456789'')" for z
    by (simp add: ascii_def)
  have n: "0 < n \<Longrightarrow> nat n \<noteq> 0" by simp
  show ?thesis
    using assms a b[of "nat n"] b[of 1] c n by (simp add: Let_def)
qed

lemma minus_not_digit: "(of_char CHR ''-'' :: code_unit) \<notin> set (ascii ''0123456789'')"
  by (simp add: ascii_def)

lemma hd_Number_toString: "(hd (Number_toString x) = of_char CHR ''-'') = isNegative x"
proof (cases x)
  case NaN then show ?thesis by (simp add: ascii_def)
next
  case (Infinity neg) then show ?thesis by (simp add: ascii_def)
next
  case (Finite neg s n)
  show ?thesis
  proof (cases "s = 0")
    case True then show ?thesis unfolding Finite by (simp add: ascii_def)
  next
    case nz: False
    show ?thesis
    proof (cases neg)
      case True then show ?thesis unfolding Finite using nz by (simp add: ascii_def)
    next
      case False
      then have "hd (Number_toString (Finite neg s n)) \<in> set (ascii ''0123456789'')"
        using nz by (rule hd_Number_toString_pos)
      then have "hd (Number_toString (Finite neg s n)) \<noteq> of_char CHR ''-''"
        using minus_not_digit by metis
      then show ?thesis using False unfolding Finite by simp
    qed
  qed
qed

subsection \<open>Splitting and joining\<close>

lemma split_no_sep:
  assumes "sep \<notin> set s" shows "split sep s = [s]"
proof -
  from assms have d: "dropWhile (\<lambda>c. c \<noteq> sep) s = []" by (induction s) auto
  show ?thesis unfolding split.simps[of sep s] d by simp
qed

lemma split_append: "sep \<notin> set a \<Longrightarrow> split sep (a @ sep # b) = a # split sep b"
proof -
  assume h: "sep \<notin> set a"
  then have d: "dropWhile (\<lambda>c. c \<noteq> sep) (a @ sep # b) = sep # b" by (induction a) auto
  from h have t: "takeWhile (\<lambda>c. c \<noteq> sep) (a @ sep # b) = a" by (induction a) auto
  show ?thesis by (subst split.simps) (simp add: d t)
qed

lemma split_join:
  "xs \<noteq> [] \<Longrightarrow> \<forall>x \<in> set xs. sep \<notin> set x \<Longrightarrow> split sep (join [sep] xs) = xs"
proof (induction "[sep]" xs rule: join.induct)
  case 1 then show ?case by simp
next
  case (2 x) then show ?case by (simp add: split_no_sep)
next
  case (3 x y ys)
  then show ?case by (simp add: split_append)
qed

lemma split_nonempty: "split sep s \<noteq> []"
  by (subst split.simps) (simp split: list.split)

lemma last_split:
  assumes "sep \<notin> set b" shows "last (split sep (a @ sep # b)) = b"
proof (induction a rule: length_induct)
  case (1 a)
  show ?case
  proof (cases "sep \<in> set a")
    case False
    then show ?thesis using assms by (simp add: split_append split_no_sep)
  next
    case True
    then obtain p q where pq: "a = p @ sep # q" "sep \<notin> set p" by (meson split_list_first)
    then have "length q < length a" by simp
    with 1 have "last (split sep (q @ sep # b)) = b" by blast
    then show ?thesis
      using pq split_append[of sep p "q @ sep # b"] split_nonempty[of sep "q @ sep # b"] by simp
  qed
qed

subsection \<open>Cleaning a text field\<close>

lemma replace_runs_no_ctl: "c \<in> set (replace_runs s) \<Longrightarrow> \<not> isTabNlCr c"
  by (induction s rule: replace_runs.induct)
     (auto simp: isTabNlCr_def SPACE_def TAB_def LF_def CR_def split: if_splits)

lemma set_trim: "set (trim s) \<subseteq> set s"
  unfolding trim_def by (auto dest!: set_dropWhileD)

lemma clean_no_ctl: "c \<in> set (clean s) \<Longrightarrow> \<not> isTabNlCr c"
  unfolding clean_def using set_trim replace_runs_no_ctl by blast

lemma clean_no_sep: "TAB \<notin> set (clean s)" "LF \<notin> set (clean s)" "CR \<notin> set (clean s)"
  using clean_no_ctl[of _ s] by (auto simp: isTabNlCr_def)

lemma trim_no_lead: "dropWhile isWhiteSpace (trim s) = trim s"
proof -
  define u where "u = dropWhile isWhiteSpace s"
  define b where "b = dropWhile isWhiteSpace (rev u)"
  have t: "trim s = rev b"
    by (simp add: trim_def u_def b_def)
  have "rev u = takeWhile isWhiteSpace (rev u) @ b"
    by (simp add: b_def)
  then have u_eq: "u = rev b @ rev (takeWhile isWhiteSpace (rev u))"
    by (metis rev_append rev_rev_ident)
  show ?thesis
  proof (cases "rev b")
    case Nil
    then show ?thesis by (simp add: t)
  next
    case (Cons c cs)
    then have "hd u = c" "u \<noteq> []"
      using u_eq by (metis hd_append2 list.sel(1) list.distinct(1), metis append_is_Nil_conv list.distinct(1))
    then have "\<not> isWhiteSpace c"
      unfolding u_def by (metis hd_dropWhile)
    then show ?thesis by (simp add: t Cons)
  qed
qed

lemma trim_no_trail: "dropWhile isWhiteSpace (rev (trim s)) = rev (trim s)"
  unfolding trim_def by (simp add: dropWhile_idem)

lemma replace_runs_run:
  assumes "\<forall>c \<in> set a. \<not> isTabNlCr c" "r \<noteq> []" "\<forall>c \<in> set r. isTabNlCr c"
    "b = [] \<or> \<not> isTabNlCr (hd b)"
  shows "replace_runs (a @ r @ b) = a @ SPACE # replace_runs b"
proof -
  from assms(2) obtain c cs where r: "r = c # cs" by (cases r) auto
  have dw: "dropWhile isTabNlCr (cs @ b) = b"
    using assms(3,4) unfolding r by (cases b) (auto simp: dropWhile_append)
  have "replace_runs (r @ b) = SPACE # replace_runs b"
    using assms(3) dw unfolding r by simp
  moreover have "replace_runs (a @ z) = a @ replace_runs z" for z
    using assms(1) by (induction a) auto
  ultimately show ?thesis by simp
qed

lemma replace_runs_id: "\<forall>c \<in> set s. \<not> isTabNlCr c \<Longrightarrow> replace_runs s = s"
  by (induction s) auto

subsection \<open>Rows\<close>

lemma row_eq:
  "row t = date t @ TAB # clean (description t) @ TAB # clean (category t) @ TAB #
     Number_toString (amount t)"
  by (simp add: row_def)

lemma split_row:
  assumes "TAB \<notin> set (date t)"
  shows "split TAB (row t) =
    [date t, clean (description t), clean (category t), Number_toString (amount t)]"
  unfolding row_def
  by (rule split_join) (use assms clean_no_sep(1) Number_toString_no_sep(1) in auto)

lemma LF_notin_row: "LF \<notin> set (date t) \<Longrightarrow> LF \<notin> set (row t)"
  using clean_no_sep(2) Number_toString_no_sep(2) by (simp add: row_eq TAB_def LF_def)

lemma LF_notin_header: "LF \<notin> set (join [TAB] headers)"
  by (simp add: headers_def ascii_def TAB_def LF_def)

lemma split_generateCSV:
  assumes "ts \<noteq> []" "\<forall>t \<in> set ts. LF \<notin> set (date t)"
  shows "split LF (generateCSV ts) = join [TAB] headers # map row ts"
proof -
  have "\<forall>x \<in> set (join [TAB] headers # map row ts). LF \<notin> set x"
    using assms(2) LF_notin_row LF_notin_header by auto
  then have "split LF (join [LF] (join [TAB] headers # map row ts)) =
      join [TAB] headers # map row ts"
    by (intro split_join) simp_all
  then show ?thesis using assms(1) by (simp add: generateCSV_def)
qed

subsection \<open>Properties of the output\<close>


text \<open>
  C9: \<open>generateCSV\<close> applied to the empty transaction sequence returns exactly the
  empty string, not a header-only string.
\<close>

theorem generateCSV_empty: "generateCSV [] = []"
  by (simp add: generateCSV_def)

text \<open>
  C5, as amended: for every non-empty sequence of N transactions whose \<open>date\<close> fields
  hold no tab and no line feed, the output of \<open>generateCSV\<close> split on line feed has
  exactly N + 1 rows, the first being the header row, and each data row split on tab
  has exactly 4 fields.
\<close>

theorem generateCSV_rows:
  assumes "ts \<noteq> []"
    and "\<forall>t \<in> set ts. TAB \<notin> set (date t) \<and> LF \<notin> set (date t)"
  shows "length (split LF (generateCSV ts)) = length ts + 1 \<and>
         hd (split LF (generateCSV ts)) = join [TAB] headers \<and>
         (\<forall>i < length ts. length (split TAB (split LF (generateCSV ts) ! Suc i)) = 4)"
proof -
  have rows: "split LF (generateCSV ts) = join [TAB] headers # map row ts"
    using assms by (intro split_generateCSV) auto
  have "length (split TAB (row (ts ! i))) = 4" if "i < length ts" for i
  proof -
    from that assms(2) have "TAB \<notin> set (date (ts ! i))" by simp
    then show ?thesis by (simp add: split_row)
  qed
  then show ?thesis by (simp add: rows)
qed

theorem generateCSV_rows_witness:
  "[txSalary, txCoffee] \<noteq> [] \<and>
   TAB \<notin> set (date txSalary) \<and> LF \<notin> set (date txSalary) \<and>
   TAB \<notin> set (date txCoffee) \<and> LF \<notin> set (date txCoffee) \<and>
   length (split LF (generateCSV [txSalary, txCoffee])) = 3 \<and>
   length (split TAB (split LF (generateCSV [txSalary, txCoffee]) ! 1)) = 4 \<and>
   length (split TAB (split LF (generateCSV [txSalary, txCoffee]) ! 2)) = 4"
proof -
  have h: "\<forall>t \<in> set [txSalary, txCoffee]. TAB \<notin> set (date t) \<and> LF \<notin> set (date t)"
    by (simp add: txSalary_def txCoffee_def ascii_def TAB_def LF_def)
  have n: "[txSalary, txCoffee] \<noteq> []" by simp
  have t: "length (split LF (generateCSV [txSalary, txCoffee])) = length [txSalary, txCoffee] + 1 \<and>
      hd (split LF (generateCSV [txSalary, txCoffee])) = join [TAB] headers \<and>
      (\<forall>i < length [txSalary, txCoffee].
         length (split TAB (split LF (generateCSV [txSalary, txCoffee]) ! Suc i)) = 4)"
    by (rule generateCSV_rows [OF n h])
  then have q: "i < 2 \<Longrightarrow>
      length (split TAB (split LF (generateCSV [txSalary, txCoffee]) ! Suc i)) = 4" for i
    by simp
  from q[of 0] q[of 1] t h show ?thesis
    by (simp add: numeral_2_eq_2)
qed

text \<open>
  C5 as stated fails: the \<open>date\<close> field is passed through verbatim, so one
  transaction whose date ends in a line feed serializes to three rows, not two.
\<close>

theorem generateCSV_rows_counterexample:
  "length (split LF (generateCSV [txRent])) \<noteq> length [txRent] + 1"
  by code_simp

text \<open>
  C6: \<open>generateCSV\<close> writes the description and the category of every transaction
  through \<open>clean\<close>, which replaces each run of tab, line feed and carriage return by
  one space and trims white space from both ends; so no tab, line feed or carriage
  return is left in a serialized description or category, whatever the input holds.
  The description \<open>Rent\tPayment\n\<close> serializes as \<open>Rent Payment\<close>.
\<close>

theorem clean_sanitizes:
  "row t = date t @ [TAB] @ clean (description t) @ [TAB] @ clean (category t) @ [TAB] @
      Number_toString (amount t) \<and>
   clean str = trim (replace_runs str) \<and>
   ((\<forall>c \<in> set a. \<not> isTabNlCr c) \<and> r \<noteq> [] \<and> (\<forall>c \<in> set r. isTabNlCr c) \<and>
      (b = [] \<or> \<not> isTabNlCr (hd b)) \<longrightarrow>
      replace_runs (a @ r @ b) = a @ [SPACE] @ replace_runs b) \<and>
   TAB \<notin> set (clean str) \<and> LF \<notin> set (clean str) \<and> CR \<notin> set (clean str) \<and>
   dropWhile isWhiteSpace (clean str) = clean str \<and>
   dropWhile isWhiteSpace (rev (clean str)) = rev (clean str) \<and>
   clean (ascii ''Rent'' @ [TAB] @ ascii ''Payment'' @ [LF]) = ascii ''Rent Payment'' \<and>
   row txRent = date txRent @ [TAB] @ ascii ''Rent Payment'' @ [TAB] @ ascii ''Bills'' @ [TAB] @
      ascii ''-1200''"
proof -
  have ex: "clean (ascii ''Rent'' @ [TAB] @ ascii ''Payment'' @ [LF]) = ascii ''Rent Payment''"
    by code_simp
  have ex_row: "row txRent = date txRent @ [TAB] @ ascii ''Rent Payment'' @ [TAB] @
      ascii ''Bills'' @ [TAB] @ ascii ''-1200''"
    by code_simp
  have run: "(\<forall>c \<in> set a. \<not> isTabNlCr c) \<and> r \<noteq> [] \<and> (\<forall>c \<in> set r. isTabNlCr c) \<and>
      (b = [] \<or> \<not> isTabNlCr (hd b)) \<longrightarrow>
      replace_runs (a @ r @ b) = a @ [SPACE] @ replace_runs b"
    using replace_runs_run[of a r b] by simp
  show ?thesis
    using ex ex_row run clean_no_sep[of str] trim_no_lead[of "replace_runs str"]
      trim_no_trail[of "replace_runs str"]
    by (simp add: row_eq clean_def)
qed

theorem clean_sanitizes_witness:
  "list_all (\<lambda>c. \<not> isTabNlCr c) (ascii ''Rent'') \<and> [TAB, LF] \<noteq> [] \<and>
   list_all isTabNlCr [TAB, LF] \<and> \<not> isTabNlCr (hd (ascii ''Payment'')) \<and>
   replace_runs (ascii ''Rent'' @ [TAB, LF] @ ascii ''Payment'') =
     ascii ''Rent'' @ [SPACE] @ replace_runs (ascii ''Payment'')"
proof -
  have h: "(\<forall>c \<in> set (ascii ''Rent''). \<not> isTabNlCr c) \<and> [TAB, LF] \<noteq> [] \<and>
      (\<forall>c \<in> set [TAB, LF]. isTabNlCr c) \<and> \<not> isTabNlCr (hd (ascii ''Payment''))"
    by (simp add: ascii_def isTabNlCr_def TAB_def LF_def CR_def)
  from clean_sanitizes [of _ _ "ascii ''Rent''" "[TAB, LF]" "ascii ''Payment''"] h
  have "replace_runs (ascii ''Rent'' @ [TAB, LF] @ ascii ''Payment'') =
     ascii ''Rent'' @ [SPACE] @ replace_runs (ascii ''Payment'')"
    by blast
  with h show ?thesis
    by (simp add: list_all_iff)
qed

text \<open>
  C8: the last field of every row is \<open>Number_toString\<close> of the amount, the canonical
  string of the number: it is written with digits, \<open>.\<close>, \<open>-\<close> and, for exponents and
  the non-finite numbers, \<open>e\<close>, \<open>+\<close> and the letters of \<open>NaN\<close> and \<open>Infinity\<close>, so with no
  currency symbol and no thousands separator, and it begins with \<open>-\<close> exactly when the
  amount is negative. 2500.00 renders as \<open>2500\<close> and -4.50 as \<open>-4.5\<close>, and the two-file
  scenario serializes to the expected text.
\<close>

theorem amount_rendering:
  "last (split TAB (row t)) = Number_toString (amount t) \<and>
   set (Number_toString x) \<subseteq> set (ascii ''0123456789.-+eNaInfity'') \<and>
   (hd (Number_toString x) = of_char CHR ''-'') = isNegative x \<and>
   Number_toString (Finite False 25 4) = ascii ''2500'' \<and>
   Number_toString (Finite True 45 1) = ascii ''-4.5'' \<and>
   generateCSV [txSalary, txCoffee] =
     join [LF]
       [join [TAB] [ascii ''Date'', ascii ''Description'', ascii ''Category'', ascii ''Amount''],
        join [TAB] [ascii ''2024-01-10'', ascii ''Employer Inc'', ascii ''Salary'', ascii ''2500''],
        join [TAB] [ascii ''2024-03-05'', ascii ''Coffee Shop'', ascii ''Dining'', ascii ''-4.5'']]"
proof -
  have l: "last (split TAB (row t)) = Number_toString (amount t)"
  proof -
    have r: "row t = (date t @ TAB # clean (description t) @ TAB # clean (category t)) @ TAB #
        Number_toString (amount t)"
      by (simp add: row_eq)
    show ?thesis
      by (subst r) (rule last_split [OF Number_toString_no_sep(1)])
  qed
  have e1: "Number_toString (Finite False 25 4) = ascii ''2500''" by code_simp
  have e2: "Number_toString (Finite True 45 1) = ascii ''-4.5''" by code_simp
  have e3: "generateCSV [txSalary, txCoffee] =
     join [LF]
       [join [TAB] [ascii ''Date'', ascii ''Description'', ascii ''Category'', ascii ''Amount''],
        join [TAB] [ascii ''2024-01-10'', ascii ''Employer Inc'', ascii ''Salary'', ascii ''2500''],
        join [TAB] [ascii ''2024-03-05'', ascii ''Coffee Shop'', ascii ''Dining'', ascii ''-4.5'']]"
    by code_simp
  show ?thesis
    using l e1 e2 e3 set_Number_toString[of x] hd_Number_toString[of x] by blast
qed

section \<open>The file selection\<close>

lemma foldl_push:
  "foldl (\<lambda>acc x. if P x then (if Q x then acc @ [x] else acc) else acc) acc0 xs =
     acc0 @ filter (\<lambda>x. P x \<and> Q x) xs"
  by (induction xs arbitrary: acc0) auto

lemma handleFiles_filter:
  "handleFiles disabled selectedFiles fileList =
     (if disabled then selectedFiles
      else selectedFiles @
        filter (\<lambda>file. type' file \<in> set validTypes \<and> \<not> isDuplicate selectedFiles file) fileList)"
  unfolding handleFiles_def Let_def foldl_push by simp

lemma isDuplicate_key: "isDuplicate selectedFiles file \<longleftrightarrow> dedupKey file \<in> dedupKey ` set selectedFiles"
  unfolding isDuplicate_def dedupKey_def list_ex_iff image_iff by (metis prod.inject)

text \<open>
  Against the files of earlier add-events the check works: a batch that does not
  repeat a key within itself keeps the selection free of repeated keys.
\<close>

lemma handleFiles_distinctKeys:
  assumes "distinctKeys selectedFiles" "distinctKeys fileList"
  shows "distinctKeys (handleFiles disabled selectedFiles fileList)"
proof -
  let ?new = "filter (\<lambda>file. type' file \<in> set validTypes \<and> \<not> isDuplicate selectedFiles file) fileList"
  have "distinct (map dedupKey ?new)"
    using assms(2) unfolding distinctKeys_def by (rule distinct_map_filter)
  moreover have "set (map dedupKey selectedFiles) \<inter> set (map dedupKey ?new) = {}"
    by (auto simp: isDuplicate_key)
  ultimately show ?thesis
    using assms(1) by (simp add: handleFiles_filter distinctKeys_def)
qed

text \<open>
  C7 fails on one batch: \<open>isDuplicate\<close> looks at \<open>selectedFiles\<close> only, never at the
  \<open>newFiles\<close> collected from the same \<open>fileList\<close>, so two files of one name and size
  that arrive together are both added.
\<close>

theorem handleFiles_same_batch:
  "dedupKey fileJanuary = dedupKey fileJanuaryOther \<and>
   handleFiles False [] [fileJanuary, fileJanuaryOther] = [fileJanuary, fileJanuaryOther] \<and>
   \<not> distinctKeys (addEvents [] [[fileJanuary, fileJanuaryOther]]) \<and>
   handleFiles False [] [fileJanuary, fileJanuary] = [fileJanuary, fileJanuary] \<and>
   handleFiles False [fileJanuary] [fileJanuaryOther] = [fileJanuary]"
  by code_simp

section \<open>The extraction client\<close>

lemma conformsItem_hasAllFields: "conformsItem j \<Longrightarrow> hasAllFields j"
proof (cases j)
  case (JObject kvs)
  have p: "isJString v \<Longrightarrow> present v" "isJNumber v \<Longrightarrow> present v" for v
    by (cases v rule: isJString.cases; simp)+
  assume "conformsItem j"
  then show ?thesis unfolding JObject by (simp add: p)
qed simp_all

lemma extractTransactions_parsed:
  assumes "generateContent base64Data mimeType = Inr (Some responseText)" "responseText \<noteq> []"
    "JSON_parse responseText = Inr data"
  shows "extractTransactions generateContent JSON_parse base64Data mimeType =
    (case data_transactions data of
       Inl e \<Rightarrow> Inl e
     | Inr None \<Rightarrow> Inr (JArray [])
     | Inr (Some v) \<Rightarrow> Inr (if isTruthy v then v else JArray []))"
  using assms by (simp add: extractTransactions_def)

text \<open>
  C3, as amended: \<open>extractTransactions\<close> returns the \<open>transactions\<close> value of the parsed
  response as it is and validates no item. Whenever the response conforms to the
  schema, what it returns is the array of the response's items and every one of them
  has all four fields present and not null, with the types the schema gives them.
\<close>

theorem extractTransactions_conforming:
  assumes "generateContent base64Data mimeType = Inr (Some responseText)"
    and "responseText \<noteq> []"
    and "JSON_parse responseText = Inr data"
    and "conformsSchema data"
  shows "\<exists>items. data_transactions data = Inr (Some (JArray items)) \<and>
           extractTransactions generateContent JSON_parse base64Data mimeType = Inr (JArray items) \<and>
           list_all hasAllFields items \<and> list_all conformsItem items"
proof -
  from assms(4) obtain kvs items where
    d: "data = JObject kvs" and m: "map_of kvs (ascii ''transactions'') = Some (JArray items)"
    and c: "list_all conformsItem items"
    by (cases data rule: conformsSchema.cases) (auto split: option.splits json.splits)
  have "list_all hasAllFields items"
    using c conformsItem_hasAllFields by (auto simp: list_all_iff)
  moreover have "extractTransactions generateContent JSON_parse base64Data mimeType = Inr (JArray items)"
    using extractTransactions_parsed [of generateContent base64Data mimeType responseText JSON_parse data, OF assms(1-3)]
    by (simp add: d m)
  ultimately show ?thesis using c by (simp add: d m)
qed

theorem extractTransactions_conforming_witness:
  "respond textCoffee (Some (ascii ''JVBERi0='')) (ascii ''application/pdf'') = Inr (Some textCoffee) \<and>
   textCoffee \<noteq> [] \<and>
   parseOf textCoffee = Inr (JObject [(ascii ''transactions'', JArray [itemCoffee])]) \<and>
   conformsSchema (JObject [(ascii ''transactions'', JArray [itemCoffee])]) \<and>
   extractTransactions (respond textCoffee) parseOf (Some (ascii ''JVBERi0='')) (ascii ''application/pdf'') =
     Inr (JArray [itemCoffee]) \<and>
   hasAllFields itemCoffee"
proof -
  have h1: "respond textCoffee (Some (ascii ''JVBERi0='')) (ascii ''application/pdf'') = Inr (Some textCoffee)"
    by (simp add: respond_def)
  have h2: "textCoffee \<noteq> []" by (simp add: textCoffee_def ascii_def)
  have h3: "parseOf textCoffee = Inr (JObject [(ascii ''transactions'', JArray [itemCoffee])])"
    by code_simp
  have h4: "conformsSchema (JObject [(ascii ''transactions'', JArray [itemCoffee])])"
    by code_simp
  have h5: "hasAllFields itemCoffee" if "list_all hasAllFields [itemCoffee]"
    using that by simp
  from extractTransactions_conforming [of "respond textCoffee" "Some (ascii ''JVBERi0='')"
      "ascii ''application/pdf''" textCoffee parseOf
      "JObject [(ascii ''transactions'', JArray [itemCoffee])]", OF h1 h2 h3 h4]
  obtain items where
    i: "data_transactions (JObject [(ascii ''transactions'', JArray [itemCoffee])]) =
          Inr (Some (JArray items))"
    and r: "extractTransactions (respond textCoffee) parseOf (Some (ascii ''JVBERi0=''))
          (ascii ''application/pdf'') = Inr (JArray items)"
    and f: "list_all hasAllFields items"
    by blast
  from i have "items = [itemCoffee]" by simp
  with r f h1 h2 h3 h4 h5 show ?thesis by simp
qed

text \<open>
  C3 as stated fails: a response whose only item has a date and nothing else is
  returned with that item; nothing rejects it.
\<close>

theorem extractTransactions_unvalidated_counterexample:
  "extractTransactions (respond textDateOnly) parseOf (Some (ascii ''JVBERi0='')) (ascii ''application/pdf'') =
     Inr (JArray [itemDateOnly]) \<and>
   \<not> hasAllFields itemDateOnly"
  by code_simp

text \<open>
  C4, as amended: \<open>extractTransactions\<close> fails with the error of the request when the
  request fails, with \<open>No response received from Gemini.\<close> when the response text is
  missing or empty, with the error of \<open>JSON.parse\<close> when the text does not parse, and with
  a \<open>TypeError\<close> when it parses to \<open>null\<close>. It checks nothing else: any other parsed
  value without a truthy \<open>transactions\<close> member gives the empty sequence successfully,
  and so does a response that returns zero transactions.
\<close>

theorem extractTransactions_outcomes:
  "(generateContent b m = Inl e \<longrightarrow>
      extractTransactions generateContent JSON_parse b m = Inl e) \<and>
   (generateContent b m = Inr None \<or> generateContent b m = Inr (Some []) \<longrightarrow>
      extractTransactions generateContent JSON_parse b m =
        Inl (Error (ascii ''No response received from Gemini.''))) \<and>
   (generateContent b m = Inr (Some txt) \<and> txt \<noteq> [] \<and> JSON_parse txt = Inl e \<longrightarrow>
      extractTransactions generateContent JSON_parse b m = Inl e) \<and>
   (generateContent b m = Inr (Some txt) \<and> txt \<noteq> [] \<and> JSON_parse txt = Inr JNull \<longrightarrow>
      (\<exists>msg. extractTransactions generateContent JSON_parse b m = Inl (TypeError msg))) \<and>
   (generateContent b m = Inr (Some txt) \<and> txt \<noteq> [] \<and> JSON_parse txt = Inr data \<and>
      data_transactions data = Inr None \<longrightarrow>
      extractTransactions generateContent JSON_parse b m = Inr (JArray [])) \<and>
   (generateContent b m = Inr (Some txt) \<and> txt \<noteq> [] \<and> JSON_parse txt = Inr data \<and>
      data_transactions data = Inr (Some v) \<longrightarrow>
      extractTransactions generateContent JSON_parse b m =
        Inr (if isTruthy v then v else JArray []))"
  by (auto simp: extractTransactions_def)

theorem extractTransactions_outcomes_witness:
  "extractTransactions (respond []) parseOf None (ascii ''image/png'') =
     Inl (Error (ascii ''No response received from Gemini.'')) \<and>
   extractTransactions (respond (ascii ''{'')) parseOf None (ascii ''image/png'') =
     Inl (SyntaxError (ascii ''Unexpected token'')) \<and>
   extractTransactions (respond textEmptyObject) parseOf None (ascii ''image/png'') =
     Inr (JArray [])"
proof -
  have a: "respond [] None (ascii ''image/png'') = Inr (Some [])"
    by (simp add: respond_def)
  have b: "respond (ascii ''{'') None (ascii ''image/png'') = Inr (Some (ascii ''{'')) \<and>
      ascii ''{'' \<noteq> [] \<and> parseOf (ascii ''{'') = Inl (SyntaxError (ascii ''Unexpected token''))"
    by code_simp
  have c: "respond textEmptyObject None (ascii ''image/png'') = Inr (Some textEmptyObject) \<and>
      textEmptyObject \<noteq> [] \<and> parseOf textEmptyObject = Inr (JObject []) \<and>
      data_transactions (JObject []) = Inr None"
    by code_simp
  have r1: "extractTransactions (respond []) parseOf None (ascii ''image/png'') =
      Inl (Error (ascii ''No response received from Gemini.''))"
    using extractTransactions_outcomes [of "respond []" None "ascii ''image/png''" ProgressEvent
        parseOf "[]" JNull JNull] a
    by simp
  have r2: "extractTransactions (respond (ascii ''{'')) parseOf None (ascii ''image/png'') =
      Inl (SyntaxError (ascii ''Unexpected token''))"
    using extractTransactions_outcomes [of "respond (ascii ''{'')" None "ascii ''image/png''"
        "SyntaxError (ascii ''Unexpected token'')" parseOf "ascii ''{''" JNull JNull] b
    by simp
  have r3: "extractTransactions (respond textEmptyObject) parseOf None (ascii ''image/png'') =
      Inr (JArray [])"
    using extractTransactions_outcomes [of "respond textEmptyObject" None "ascii ''image/png''"
        ProgressEvent parseOf textEmptyObject "JObject []" JNull] c
    by simp
  from r1 r2 r3 show ?thesis by simp
qed

text \<open>
  C4 as stated fails: the response text \<open>{}\<close> is not conformant to the schema, which
  requires \<open>transactions\<close>, and yet the result is the empty sequence, successfully.
\<close>

theorem extractTransactions_empty_counterexample:
  "parseOf textEmptyObject = Inr (JObject []) \<and> \<not> conformsSchema (JObject []) \<and>
   extractTransactions (respond textEmptyObject) parseOf (Some (ascii ''JVBERi0=''))
     (ascii ''application/pdf'') = Inr (JArray [])"
  by code_simp

section \<open>The orchestrator\<close>

subsection \<open>Settled promises\<close>

lemma rejections_Nil: "rejections ps = [] \<longleftrightarrow> (\<forall>p \<in> set ps. \<not> isl p)"
  by (induction ps) (auto simp: rejections_def List.map_filter_simps split: sum.splits)

lemma fulfilled_all: "\<forall>p \<in> set ps. \<not> isl p \<Longrightarrow> map Inr (fulfilled ps) = ps"
  by (induction ps) (auto simp: fulfilled_def List.map_filter_simps split: sum.splits)

lemma length_fulfilled: "\<forall>p \<in> set ps. \<not> isl p \<Longrightarrow> length (fulfilled ps) = length ps"
  using fulfilled_all[of ps] by (metis length_map)

lemma Promise_all_fulfilled:
  assumes "\<forall>p \<in> set ps. \<not> isl p"
  shows "Promise_all order ps = Inr (fulfilled ps)"
proof -
  have "\<forall>p \<in> set (map (\<lambda>i. ps ! i) (filter (\<lambda>i. i < length ps) order)). \<not> isl p"
    using assms by auto
  then have "rejections (map (\<lambda>i. ps ! i) (filter (\<lambda>i. i < length ps) order)) = []"
    by (simp only: rejections_Nil)
  moreover have "rejections ps = []"
    using assms by (simp only: rejections_Nil)
  ultimately show ?thesis by (simp add: Promise_all_def)
qed

lemma Promise_all_rejected:
  assumes "\<exists>p \<in> set ps. isl p"
  shows "\<exists>e. Promise_all order ps = Inl e"
proof -
  from assms have "rejections ps \<noteq> []" by (simp add: rejections_Nil)
  then have "rejections (map (\<lambda>i. ps ! i) (filter (\<lambda>i. i < length ps) order)) @ rejections ps \<noteq> []"
    by simp
  then show ?thesis
    unfolding Promise_all_def by (auto split: list.splits)
qed

subsection \<open>The sort\<close>

lemma mset_insert_sorted: "mset (insert_sorted c x ys) = add_mset x (mset ys)"
  by (induction ys) auto

lemma mset_Array_sort: "mset (Array_sort c xs) = mset xs"
  by (induction xs) (auto simp: Array_sort_def mset_insert_sorted)

lemma length_Array_sort: "length (Array_sort c xs) = length xs"
  using mset_Array_sort[of c xs] by (metis size_mset)

lemma set_Array_sort: "set (Array_sort c xs) = set xs"
  using mset_Array_sort[of c xs] by (metis set_mset_mset)

text \<open>
  Where every date parses the comparator orders the records by their time values, and
  the sort is the stable sort by that key.
\<close>

lemma insert_sorted_insort:
  assumes "getTime (date x) \<noteq> None" "\<forall>t \<in> set ys. getTime (date t) \<noteq> None"
  shows "insert_sorted (compareFn getTime) x ys =
    insort_key (\<lambda>t. the (getTime (date t))) x ys"
  using assms by (induction ys) (auto simp: sortCompare_def compareFn_def)

lemma Array_sort_sort_key:
  assumes "\<forall>t \<in> set xs. getTime (date t) \<noteq> None"
  shows "Array_sort (compareFn getTime) xs = sort_key (\<lambda>t. the (getTime (date t))) xs"
  using assms
proof (induction xs)
  case Nil
  then show ?case by (simp add: Array_sort_def)
next
  case (Cons x xs)
  then have ih: "Array_sort (compareFn getTime) xs = sort_key (\<lambda>t. the (getTime (date t))) xs"
    by simp
  have "\<forall>t \<in> set (Array_sort (compareFn getTime) xs). getTime (date t) \<noteq> None"
    using Cons.prems by (simp add: set_Array_sort)
  then have "insert_sorted (compareFn getTime) x (Array_sort (compareFn getTime) xs) =
      insort_key (\<lambda>t. the (getTime (date t))) x (Array_sort (compareFn getTime) xs)"
    using Cons.prems by (intro insert_sorted_insort) simp_all
  then show ?case
    using ih by (simp add: Array_sort_def)
qed

lemma sortedByDate_sorted:
  assumes "\<forall>t \<in> set ts. getTime (date t) \<noteq> None"
  shows "sortedByDate getTime ts \<longleftrightarrow> sorted (map (\<lambda>t. the (getTime (date t))) ts)"
  using assms unfolding sortedByDate_def
  by (induction ts) (auto split: option.splits)

subsection \<open>Runs\<close>

lemma handleAnalyze_all_fulfilled:
  assumes "files s \<noteq> []" "\<forall>p \<in> set (map (processFile w) (files s)). \<not> isl p"
  shows "handleAnalyze w s =
    (s\<lparr>status := SUCCESS, processedCount := length (files s), error := None,
        transactions := Array_sort (compareFn (Date_getTime w))
          (concat (fulfilled (map (processFile w) (files s))))\<rparr>,
     calls w (files s))"
  using assms Promise_all_fulfilled [OF assms(2), of "settled w"]
    length_fulfilled [OF assms(2)]
  by (simp add: handleAnalyze_def Let_def)

lemma handleAnalyze_some_rejected:
  assumes "\<exists>p \<in> set (map (processFile w) (files s)). isl p"
  shows "\<exists>e. Promise_all (settled w) (map (processFile w) (files s)) = Inl e \<and>
    handleAnalyze w s =
    (s\<lparr>status := ERROR,
        processedCount := length (fulfilled (map (processFile w) (files s))),
        error := Some (case message e of
                         None \<Rightarrow> defaultError
                       | Some m \<Rightarrow> if m = [] then defaultError else m),
        transactions := []\<rparr>,
     calls w (files s))"
proof -
  from assms have ne: "files s \<noteq> []" by auto
  from Promise_all_rejected [OF assms, of "settled w"] obtain e where
    e: "Promise_all (settled w) (map (processFile w) (files s)) = Inl e" by blast
  then have "handleAnalyze w s =
    (s\<lparr>status := ERROR,
        processedCount := length (fulfilled (map (processFile w) (files s))),
        error := Some (case message e of
                         None \<Rightarrow> defaultError
                       | Some m \<Rightarrow> if m = [] then defaultError else m),
        transactions := []\<rparr>,
     calls w (files s))"
    using ne by (simp add: handleAnalyze_def Let_def)
  with e show ?thesis by blast
qed

lemma handleAnalyze_status:
  assumes "files s \<noteq> []"
  shows "status (fst (handleAnalyze w s)) =
    (if \<exists>p \<in> set (map (processFile w) (files s)). isl p then ERROR else SUCCESS)"
proof (cases "\<exists>p \<in> set (map (processFile w) (files s)). isl p")
  case True
  from handleAnalyze_some_rejected [OF True] obtain e where
    "handleAnalyze w s = (s\<lparr>status := ERROR,
        processedCount := length (fulfilled (map (processFile w) (files s))),
        error := Some (case message e of
                         None \<Rightarrow> defaultError
                       | Some m \<Rightarrow> if m = [] then defaultError else m),
        transactions := []\<rparr>, calls w (files s))" by blast
  then show ?thesis using True by simp
next
  case False
  then have "\<forall>p \<in> set (map (processFile w) (files s)). \<not> isl p" by blast
  from handleAnalyze_all_fulfilled [OF assms this] False show ?thesis by simp
qed

text \<open>A run on files makes at least the reads.\<close>

lemma handleAnalyze_calls:
  assumes "files s \<noteq> []"
  shows "snd (handleAnalyze w s) = calls w (files s) \<and> snd (handleAnalyze w s) \<noteq> []"
  using assms by (auto simp: handleAnalyze_def Let_def calls_def split: sum.splits)

text \<open>
  C1, as amended: for every successfully completed run, every file's extraction
  succeeded, the resulting sequence is a rearrangement of the per-file results in the
  order of the files, and its length is the sum of the per-file counts; and if every
  extracted date parses to a time value, the sequence is sorted non-decreasing by that
  calendar value and transactions with equal values keep their relative order.
\<close>

theorem handleAnalyze_success:
  assumes "files s \<noteq> []"
    and "status (fst (handleAnalyze w s)) = SUCCESS"
  shows "map (processFile w) (files s) = map Inr (fulfilled (map (processFile w) (files s))) \<and>
    mset (transactions (fst (handleAnalyze w s))) =
      mset (concat (fulfilled (map (processFile w) (files s)))) \<and>
    length (transactions (fst (handleAnalyze w s))) =
      sum_list (map length (fulfilled (map (processFile w) (files s)))) \<and>
    processedCount (fst (handleAnalyze w s)) = length (files s) \<and>
    ((\<forall>t \<in> set (concat (fulfilled (map (processFile w) (files s)))).
        Date_getTime w (date t) \<noteq> None) \<longrightarrow>
       sortedByDate (Date_getTime w) (transactions (fst (handleAnalyze w s))) \<and>
       sorted (map (\<lambda>t. the (Date_getTime w (date t))) (transactions (fst (handleAnalyze w s)))) \<and>
       (\<forall>v. filter (\<lambda>t. Date_getTime w (date t) = Some v) (transactions (fst (handleAnalyze w s))) =
            filter (\<lambda>t. Date_getTime w (date t) = Some v)
              (concat (fulfilled (map (processFile w) (files s))))))"
proof -
  let ?ps = "map (processFile w) (files s)"
  let ?all = "concat (fulfilled ?ps)"
  let ?k = "\<lambda>t. the (Date_getTime w (date t))"
  have ok: "\<forall>p \<in> set ?ps. \<not> isl p"
    using assms handleAnalyze_status [OF assms(1), of w] by (auto split: if_splits)
  have run: "transactions (fst (handleAnalyze w s)) = Array_sort (compareFn (Date_getTime w)) ?all"
    "processedCount (fst (handleAnalyze w s)) = length (files s)"
    using handleAnalyze_all_fulfilled [OF assms(1) ok] by simp_all
  have a: "?ps = map Inr (fulfilled ?ps)"
    using fulfilled_all [OF ok] by simp
  have b: "mset (transactions (fst (handleAnalyze w s))) = mset ?all"
    by (simp add: run mset_Array_sort)
  have c: "length (transactions (fst (handleAnalyze w s))) = sum_list (map length (fulfilled ?ps))"
    by (simp add: run length_Array_sort length_concat)
  have d: "sortedByDate (Date_getTime w) (transactions (fst (handleAnalyze w s))) \<and>
       sorted (map ?k (transactions (fst (handleAnalyze w s)))) \<and>
       (\<forall>v. filter (\<lambda>t. Date_getTime w (date t) = Some v) (transactions (fst (handleAnalyze w s))) =
            filter (\<lambda>t. Date_getTime w (date t) = Some v) ?all)"
    if p: "\<forall>t \<in> set ?all. Date_getTime w (date t) \<noteq> None"
  proof -
    have s: "transactions (fst (handleAnalyze w s)) = sort_key ?k ?all"
      using Array_sort_sort_key [OF p] by (simp add: run)
    have s1: "sorted (map ?k (transactions (fst (handleAnalyze w s))))"
      by (simp add: s)
    have p': "\<forall>t \<in> set (transactions (fst (handleAnalyze w s))). Date_getTime w (date t) \<noteq> None"
      using p by (simp add: s)
    have s2: "sortedByDate (Date_getTime w) (transactions (fst (handleAnalyze w s)))"
      using s1 sortedByDate_sorted [OF p'] by simp
    have s3: "filter (\<lambda>t. Date_getTime w (date t) = Some v) (transactions (fst (handleAnalyze w s))) =
        filter (\<lambda>t. Date_getTime w (date t) = Some v) ?all" for v
    proof -
      have e: "filter (\<lambda>t. Date_getTime w (date t) = Some v) ts = filter (\<lambda>t. ?k t = v) ts"
        if "\<forall>t \<in> set ts. Date_getTime w (date t) \<noteq> None" for ts
        using that by (intro filter_cong) auto
      have "filter (\<lambda>t. Date_getTime w (date t) = Some v) (sort_key ?k ?all) =
          filter (\<lambda>t. ?k t = v) (sort_key ?k ?all)"
        using p' unfolding s by (rule e)
      also have "\<dots> = filter (\<lambda>t. ?k t = v) ?all"
        by (rule sort_key_stable)
      also have "\<dots> = filter (\<lambda>t. Date_getTime w (date t) = Some v) ?all"
        using p by (rule e [symmetric])
      finally show ?thesis
        by (simp only: s)
    qed
    from s1 s2 s3 show ?thesis by blast
  qed
  from a b c d run(2) show ?thesis by blast
qed

theorem handleAnalyze_success_witness:
  "files (stateWith [fileJanuary, fileMarch]) \<noteq> [] \<and>
   status (fst (handleAnalyze worldOk (stateWith [fileJanuary, fileMarch]))) = SUCCESS \<and>
   fulfilled (map (processFile worldOk) [fileJanuary, fileMarch]) = [[txCoffee], [txSalary]] \<and>
   Date_getTime worldOk (date txCoffee) \<noteq> None \<and>
   Date_getTime worldOk (date txSalary) \<noteq> None \<and>
   transactions (fst (handleAnalyze worldOk (stateWith [fileJanuary, fileMarch]))) =
     [txSalary, txCoffee] \<and>
   sortedByDate (Date_getTime worldOk)
     (transactions (fst (handleAnalyze worldOk (stateWith [fileJanuary, fileMarch])))) \<and>
   length (transactions (fst (handleAnalyze worldOk (stateWith [fileJanuary, fileMarch])))) = 2"
proof -
  have h1: "files (stateWith [fileJanuary, fileMarch]) \<noteq> []"
    by (simp add: stateWith_def)
  have h2: "status (fst (handleAnalyze worldOk (stateWith [fileJanuary, fileMarch]))) = SUCCESS"
    by code_simp
  have f: "files (stateWith [fileJanuary, fileMarch]) = [fileJanuary, fileMarch]"
    by (simp add: stateWith_def)
  have r: "fulfilled (map (processFile worldOk) [fileJanuary, fileMarch]) = [[txCoffee], [txSalary]]"
    by code_simp
  have h3: "\<forall>t \<in> set [txCoffee, txSalary]. Date_getTime worldOk (date t) \<noteq> None"
    by code_simp
  have t: "transactions (fst (handleAnalyze worldOk (stateWith [fileJanuary, fileMarch]))) =
     [txSalary, txCoffee]"
    by code_simp
  from handleAnalyze_success [OF h1 h2] h3
  have "sortedByDate (Date_getTime worldOk)
      (transactions (fst (handleAnalyze worldOk (stateWith [fileJanuary, fileMarch])))) \<and>
    length (transactions (fst (handleAnalyze worldOk (stateWith [fileJanuary, fileMarch])))) = 2"
    unfolding f r by simp
  with h1 h2 r h3 t show ?thesis by simp
qed

text \<open>
  C1 as stated fails: a run whose one file yields a record with an unparsable date
  between two dated ones completes successfully and leaves the March record before
  the January record.
\<close>

theorem handleAnalyze_success_counterexample:
  "status (fst (handleAnalyze worldPending (stateWith [fileJanuary]))) = SUCCESS \<and>
   transactions (fst (handleAnalyze worldPending (stateWith [fileJanuary]))) =
     [txCoffee, txPending, txSalary] \<and>
   \<not> sortedByDate (Date_getTime worldPending)
       (transactions (fst (handleAnalyze worldPending (stateWith [fileJanuary]))))"
  by code_simp

text \<open>
  C2: for every run in which the encoding or the extraction of at least one file
  fails, \<open>handleAnalyze\<close> ends in the status Error with an error message, and the
  transaction state is empty: nothing extracted from the files that succeeded, and
  nothing of an earlier run, is kept.
\<close>

theorem handleAnalyze_failure:
  assumes "\<exists>file \<in> set (files s). isl (processFile w file)"
  shows "status (fst (handleAnalyze w s)) = ERROR \<and>
         status (fst (handleAnalyze w s)) \<noteq> SUCCESS \<and>
         transactions (fst (handleAnalyze w s)) = [] \<and>
         error (fst (handleAnalyze w s)) \<noteq> None"
proof -
  from assms have "\<exists>p \<in> set (map (processFile w) (files s)). isl p" by auto
  from handleAnalyze_some_rejected [OF this] obtain e where
    "handleAnalyze w s = (s\<lparr>status := ERROR,
        processedCount := length (fulfilled (map (processFile w) (files s))),
        error := Some (case message e of
                         None \<Rightarrow> defaultError
                       | Some m \<Rightarrow> if m = [] then defaultError else m),
        transactions := []\<rparr>, calls w (files s))" by blast
  then show ?thesis by simp
qed

theorem handleAnalyze_failure_witness:
  "(\<exists>file \<in> set (files (stateAfterRun [fileJanuary, fileMarch])). isl (processFile worldFail file)) \<and>
   processFile worldFail fileJanuary = Inr [txCoffee] \<and>
   transactions (stateAfterRun [fileJanuary, fileMarch]) = [txSalary] \<and>
   status (fst (handleAnalyze worldFail (stateAfterRun [fileJanuary, fileMarch]))) = ERROR \<and>
   transactions (fst (handleAnalyze worldFail (stateAfterRun [fileJanuary, fileMarch]))) = []"
proof -
  have h: "\<exists>file \<in> set (files (stateAfterRun [fileJanuary, fileMarch])). isl (processFile worldFail file)"
    by code_simp
  have a: "processFile worldFail fileJanuary = Inr [txCoffee]"
    by code_simp
  have b: "transactions (stateAfterRun [fileJanuary, fileMarch]) = [txSalary]"
    by (simp add: stateAfterRun_def)
  from handleAnalyze_failure [OF h] h a b show ?thesis by blast
qed

text \<open>
  C10: on an empty file list \<open>handleAnalyze\<close> returns at once: the state, with its
  status, transactions, error message and progress counter, is unchanged, and no read
  and no extraction is called.
\<close>

theorem handleAnalyze_no_files:
  assumes "files s = []"
  shows "handleAnalyze w s = (s, [])"
  using assms by (simp add: handleAnalyze_def)

theorem handleAnalyze_no_files_witness:
  "files (stateAfterRun []) = [] \<and>
   handleAnalyze worldOk (stateAfterRun []) = (stateAfterRun [], [])"
proof -
  have h: "files (stateAfterRun []) = []"
    by (simp add: stateAfterRun_def)
  from handleAnalyze_no_files [OF h] h show ?thesis by blast
qed

end
